theory Spec2Isabelle
  imports Main "HOL-Library.Sublist"
begin

section \<open>The transcription page: \<^verbatim>\<open>src/pages/Index.tsx\<close>\<close>

text \<open>
  The page is one React function component. Its state is three \<^verbatim>\<open>useState\<close> cells and one
  \<^verbatim>\<open>useRef\<close> cell; everything else it does is a call into the browser (the speech
  recognition object, the clipboard, the DOM, the toast hook). The model passes the state
  explicitly and returns the calls into the browser as a list of effects, in program order.
\<close>

subsection \<open>What the recognition capability delivers\<close>

text \<open>
  A \<^verbatim>\<open>SpeechRecognitionEvent\<close> carries the list \<^verbatim>\<open>results\<close> and the index
  \<^verbatim>\<open>resultIndex\<close> of the first result this notification is about. Each result is an array
  of alternatives with a flag \<^verbatim>\<open>isFinal\<close>; the page reads alternative \<^verbatim>\<open>[0]\<close> only.
  The field \<^verbatim>\<open>transcript\<close> of an alternative is named \<open>alt_transcript\<close> here, the name
  \<open>transcript\<close> being kept for the state cell of the component.
\<close>

record SpeechRecognitionAlternative =
  alt_transcript :: string

record SpeechRecognitionResult =
  alternatives :: "SpeechRecognitionAlternative list"
  isFinal :: bool

record SpeechRecognitionEvent =
  resultIndex :: nat
  results :: "SpeechRecognitionResult list"

text \<open>Reading a property of \<^verbatim>\<open>undefined\<close> throws.\<close>

datatype js_error = TypeError

subsection \<open>Calls into the browser\<close>

record Blob =
  blobParts :: "string list"
  blob_type :: string

record anchor =
  href :: Blob
  download :: string

datatype effect =
    Toast string string "string option"
  | ConsoleError string string
  | RecognitionStart
  | RecognitionStop
  | ClipboardWriteText string
  | AppendChild anchor
  | Click anchor
  | RemoveChild anchor
  | Uncaught js_error

subsection \<open>The state of the component\<close>

text \<open>
  The recognition object is created once, by the mount effect, and its three handlers are
  closures created in that same effect run. Of the component's variables the handlers read
  only \<^verbatim>\<open>isListening\<close> (in \<^verbatim>\<open>onend\<close>); the value the closure holds is the one of the
  render the effect belongs to, kept here in \<open>onend_isListening\<close>. The effect has the
  dependency list \<^verbatim>\<open>[]\<close>, so it never runs again and the closure is never replaced.
\<close>

record recognition =
  continuous :: bool
  interimResults :: bool
  lang :: string
  onend_isListening :: bool

record component =
  isListening :: bool
  transcript :: string
  runInBackground :: bool
  recognitionRef :: "recognition option"

record window =
  has_webkitSpeechRecognition :: bool
  has_SpeechRecognition :: bool

text \<open>
  \<^verbatim>\<open>navigator.clipboard\<close> is defined in a secure context only; elsewhere the property is
  \<^verbatim>\<open>undefined\<close>.
\<close>

record navigator =
  has_clipboard :: bool

definition initial :: component where
  "initial = \<lparr>isListening = False, transcript = [], runInBackground = False,
     recognitionRef = None\<rparr>"

subsection \<open>The handlers of the recognition object (lines 34 to 64)\<close>

text \<open>
  The loop of \<^verbatim>\<open>onresult\<close>, from \<^verbatim>\<open>event.resultIndex\<close> up to
  \<^verbatim>\<open>event.results.length\<close>, with its two accumulators. A result with no alternative makes
  \<^verbatim>\<open>event.results[i][0]\<close> undefined, and reading \<^verbatim>\<open>.transcript\<close> of it throws.
\<close>

function onresult_loop ::
  "SpeechRecognitionEvent \<Rightarrow> nat \<Rightarrow> string \<times> string \<Rightarrow> js_error + string \<times> string" where
  "onresult_loop event i (interimTranscript, finalTranscript) =
     (if i < length (results event) then
        (case alternatives (results event ! i) of
           [] \<Rightarrow> Inl TypeError
         | a # _ \<Rightarrow>
             if isFinal (results event ! i)
             then onresult_loop event (i + 1)
                    (interimTranscript, finalTranscript @ alt_transcript a)
             else onresult_loop event (i + 1)
                    (interimTranscript @ alt_transcript a, finalTranscript))
      else Inr (interimTranscript, finalTranscript))"
  by pat_completeness auto
termination
  by (relation "measure (\<lambda>(event, i, acc). length (results event) - i)") auto

text \<open>
  \<^verbatim>\<open>setTranscript(prev => prev + finalTranscript)\<close> is a functional update: it is applied to
  the state at the time of the update. When the loop throws, the update is never reached.
\<close>

definition onresult :: "SpeechRecognitionEvent \<Rightarrow> component \<Rightarrow> js_error + component" where
  "onresult event s =
     (case onresult_loop event (resultIndex event) ([], []) of
        Inl e \<Rightarrow> Inl e
      | Inr (interimTranscript, finalTranscript) \<Rightarrow>
          Inr (s\<lparr>transcript := transcript s @ finalTranscript\<rparr>))"

definition onerror :: "string \<Rightarrow> component \<Rightarrow> component \<times> effect list" where
  "onerror error s =
     (s\<lparr>isListening := False\<rparr>,
      [ConsoleError ''Speech recognition error'' error,
       Toast ''Error'' (''Speech recognition error: '' @ error) (Some ''destructive'')])"

text \<open>
  \<^verbatim>\<open>onend\<close> tests the \<^verbatim>\<open>isListening\<close> of its closure, and reads the ref cell at the time
  of the call (\<^verbatim>\<open>recognitionRef.current?.start()\<close>).
\<close>

definition onend :: "recognition \<Rightarrow> component \<Rightarrow> effect list" where
  "onend r s =
     (if onend_isListening r
      then (case recognitionRef s of None \<Rightarrow> [] | Some _ \<Rightarrow> [RecognitionStart])
      else [])"

subsection \<open>The two effects (lines 16 to 79)\<close>

definition mountEffect :: "window \<Rightarrow> component \<Rightarrow> component \<times> effect list" where
  "mountEffect w s =
     (if \<not> has_webkitSpeechRecognition w \<and> \<not> has_SpeechRecognition w
      then (s, [Toast ''Speech Recognition Not Supported''
                  ''Your browser does not support speech recognition.''
                  (Some ''destructive'')])
      else (s\<lparr>recognitionRef :=
                Some \<lparr>continuous = True, interimResults = True, lang = ''en-US'',
                      onend_isListening = isListening s\<rparr>\<rparr>, []))"

text \<open>The cleanup the mount effect returns, run when the component is removed.\<close>

definition unmountCleanup :: "component \<Rightarrow> effect list" where
  "unmountCleanup s = (case recognitionRef s of None \<Rightarrow> [] | Some _ \<Rightarrow> [RecognitionStop])"

definition listeningEffect :: "component \<Rightarrow> effect list" where
  "listeningEffect s =
     (if isListening s \<and> recognitionRef s \<noteq> None then [RecognitionStart]
      else if \<not> isListening s \<and> recognitionRef s \<noteq> None then [RecognitionStop]
      else [])"

text \<open>
  After the first render both effects run, in the order they are declared. After a later
  render the second effect runs again only if \<^verbatim>\<open>isListening\<close> differs from the render
  before (its dependency list is \<^verbatim>\<open>[isListening]\<close>); the first never does.
\<close>

definition mount :: "window \<Rightarrow> component \<times> effect list" where
  "mount w = (case mountEffect w initial of (s, out) \<Rightarrow> (s, out @ listeningEffect s))"

definition commit :: "component \<Rightarrow> component \<Rightarrow> effect list" where
  "commit old new = (if isListening new \<noteq> isListening old then listeningEffect new else [])"

subsection \<open>The handlers of the user's actions (lines 81 to 109)\<close>

definition handleToggleListening :: "component \<Rightarrow> component" where
  "handleToggleListening s = s\<lparr>isListening := \<not> isListening s\<rparr>"

text \<open>
  An empty string is falsy, every other string is truthy. Inside the test the handler
  reads \<^verbatim>\<open>navigator.clipboard.writeText\<close> with no guard: where \<^verbatim>\<open>navigator.clipboard\<close> is
  undefined this throws, before the write and before the toast. The effect
  \<open>ClipboardWriteText\<close> is the call of \<^verbatim>\<open>writeText\<close>; the promise it returns is dropped.
\<close>

definition handleCopyText :: "navigator \<Rightarrow> component \<Rightarrow> component \<times> effect list" where
  "handleCopyText nav s =
     (if transcript s \<noteq> []
      then (if has_clipboard nav
            then (s, [ClipboardWriteText (transcript s),
                      Toast ''Copied'' ''Transcript copied to clipboard'' None])
            else (s, [Uncaught TypeError]))
      else (s, []))"

text \<open>
  \<^verbatim>\<open>String.prototype.split\<close> with a one-character separator: the pieces between the
  separators, never an empty array.
\<close>

fun js_split :: "char \<Rightarrow> string \<Rightarrow> string list" where
  "js_split sep [] = [[]]"
| "js_split sep (c # cs) =
     (if c = sep then [] # js_split sep cs
      else (case js_split sep cs of [] \<Rightarrow> [[c]] | p # ps \<Rightarrow> (c # p) # ps))"

text \<open>
  The handler reads the clock: \<open>now\<close> is the value of \<^verbatim>\<open>new Date().toISOString()\<close>.
  Element \<^verbatim>\<open>[0]\<close> of an empty array would be \<^verbatim>\<open>undefined\<close>, which a template literal
  prints as such. The \<open>href\<close> of the anchor is an object URL; the model keeps the blob the
  URL stands for.
\<close>

definition handleDownloadText :: "string \<Rightarrow> component \<Rightarrow> component \<times> effect list" where
  "handleDownloadText now s =
     (if transcript s \<noteq> []
      then
        (let file = \<lparr>blobParts = [transcript s], blob_type = ''text/plain''\<rparr>;
             element = \<lparr>href = file,
                        download = ''transcript-''
                          @ (case js_split CHR ''T'' now of [] \<Rightarrow> ''undefined'' | d # _ \<Rightarrow> d)
                          @ ''.txt''\<rparr>
         in (s, [AppendChild element, Click element, RemoveChild element]))
      else (s, []))"

definition handleClearText :: "component \<Rightarrow> component" where
  "handleClearText s = s\<lparr>transcript := []\<rparr>"

subsection \<open>One turn of the event loop\<close>

text \<open>
  The browser delivers one event at a time: a click on one of the four buttons, a change of
  the background switch, or a notification of the recognition object. A notification has a
  handler only once the mount effect has created the object. After the handler the
  component renders again and \<open>commit\<close> runs the effect whose dependency changed. An
  exception leaves a handler before any state update, and is reported by the browser.
\<close>

datatype event =
    ClickToggle
  | ClickCopy navigator
  | ClickDownload string
  | ClickClear
  | SwitchBackground bool
  | Result SpeechRecognitionEvent
  | Error string
  | End

fun step :: "event \<Rightarrow> component \<Rightarrow> component \<times> effect list" where
  "step ClickToggle s = (handleToggleListening s, commit s (handleToggleListening s))"
| "step (ClickCopy nav) s = handleCopyText nav s"
| "step (ClickDownload now) s = handleDownloadText now s"
| "step ClickClear s = (handleClearText s, [])"
| "step (SwitchBackground b) s = (s\<lparr>runInBackground := b\<rparr>, [])"
| "step (Result ev) s =
     (case recognitionRef s of
        None \<Rightarrow> (s, [])
      | Some r \<Rightarrow>
          (case onresult ev s of
             Inl e \<Rightarrow> (s, [Uncaught e])
           | Inr s' \<Rightarrow> (s', commit s s')))"
| "step (Error code) s =
     (case recognitionRef s of
        None \<Rightarrow> (s, [])
      | Some r \<Rightarrow> (case onerror code s of (s', out) \<Rightarrow> (s', out @ commit s s')))"
| "step End s =
     (case recognitionRef s of
        None \<Rightarrow> (s, [])
      | Some r \<Rightarrow> (s, onend r s))"

fun run :: "event list \<Rightarrow> component \<Rightarrow> component \<times> effect list" where
  "run [] s = (s, [])"
| "run (e # es) s =
     (case step e s of (s', out) \<Rightarrow>
        (case run es s' of (s'', out') \<Rightarrow> (s'', out @ out')))"

text \<open>A whole session: the mount, then the events.\<close>

definition session :: "window \<Rightarrow> event list \<Rightarrow> component \<times> effect list" where
  "session w es =
     (case mount w of (s, out) \<Rightarrow>
        (case run es s of (s', out') \<Rightarrow> (s', out @ out')))"


section \<open>What the statements below speak of\<close>

text \<open>
  The batch of segments a notification carries is the part of \<^verbatim>\<open>results\<close> from
  \<^verbatim>\<open>resultIndex\<close> on; the text of a segment is the transcript of its first alternative.
  \<open>final_text\<close> is the concatenation, in the order delivered, of the segments marked
  final. A notification is well formed when every segment it carries has a first
  alternative, as the recognition interface promises.
\<close>

definition first_text :: "SpeechRecognitionResult \<Rightarrow> string" where
  "first_text r = (case alternatives r of [] \<Rightarrow> [] | a # _ \<Rightarrow> alt_transcript a)"

definition delivered :: "SpeechRecognitionEvent \<Rightarrow> SpeechRecognitionResult list" where
  "delivered event = drop (resultIndex event) (results event)"

definition final_text :: "SpeechRecognitionEvent \<Rightarrow> string" where
  "final_text event = concat (map first_text (filter isFinal (delivered event)))"

definition well_formed :: "SpeechRecognitionEvent \<Rightarrow> bool" where
  "well_formed event = list_all (\<lambda>r. alternatives r \<noteq> []) (delivered event)"

text \<open>
  What a list of effects writes to the clipboard, and which anchors it clicks (a click on
  an anchor with a \<^verbatim>\<open>download\<close> attribute offers its target for saving under that name).
\<close>

fun clipboard_writes :: "effect list \<Rightarrow> string list" where
  "clipboard_writes [] = []"
| "clipboard_writes (ClipboardWriteText t # out) = t # clipboard_writes out"
| "clipboard_writes (_ # out) = clipboard_writes out"

fun clicked :: "effect list \<Rightarrow> anchor list" where
  "clicked [] = []"
| "clicked (Click a # out) = a # clicked out"
| "clicked (_ # out) = clicked out"

section \<open>Result notifications\<close>

declare onresult_loop.simps [simp del]

lemma onresult_loop_returns:
  "list_all (\<lambda>r. alternatives r \<noteq> []) (drop i (results event)) \<Longrightarrow>
   onresult_loop event i (it, ft) =
     Inr (it @ concat (map first_text (filter (\<lambda>r. \<not> isFinal r) (drop i (results event)))),
          ft @ concat (map first_text (filter isFinal (drop i (results event)))))"
proof (induction event i "(it, ft)" arbitrary: it ft rule: onresult_loop.induct)
  case (1 event i it ft)
  show ?case
  proof (cases "i < length (results event)")
    case False
    then show ?thesis by (simp add: onresult_loop.simps [of event i it ft])
  next
    case True
    then have unfold: "drop i (results event) = results event ! i # drop (Suc i) (results event)"
      by (simp add: Cons_nth_drop_Suc)
    with "1.prems" obtain a as where alts: "alternatives (results event ! i) = a # as"
      by (cases "alternatives (results event ! i)") auto
    from "1.prems" unfold have rest: "list_all (\<lambda>r. alternatives r \<noteq> []) (drop (i + 1) (results event))"
      by simp
    show ?thesis
    proof (cases "isFinal (results event ! i)")
      case True
      from "1.hyps"(1)[OF \<open>i < length (results event)\<close> alts True] rest
      show ?thesis using \<open>i < length (results event)\<close> alts True unfold
        by (simp add: first_text_def onresult_loop.simps [of event i it ft])
    next
      case False
      from "1.hyps"(2)[OF \<open>i < length (results event)\<close> alts False] rest
      show ?thesis using \<open>i < length (results event)\<close> alts False unfold
        by (simp add: first_text_def onresult_loop.simps [of event i it ft])
    qed
  qed
qed

lemma onresult_loop_throws:
  "\<not> list_all (\<lambda>r. alternatives r \<noteq> []) (drop i (results event)) \<Longrightarrow>
   onresult_loop event i (it, ft) = Inl TypeError"
proof (induction event i "(it, ft)" arbitrary: it ft rule: onresult_loop.induct)
  case (1 event i it ft)
  show ?case
  proof (cases "i < length (results event)")
    case False
    with "1.prems" show ?thesis by (simp add: onresult_loop.simps [of event i it ft])
  next
    case True
    then have unfold: "drop i (results event) = results event ! i # drop (Suc i) (results event)"
      by (simp add: Cons_nth_drop_Suc)
    show ?thesis
    proof (cases "alternatives (results event ! i)")
      case Nil
      with True show ?thesis by (simp add: onresult_loop.simps [of event i it ft])
    next
      case (Cons a as)
      with "1.prems" unfold have rest: "\<not> list_all (\<lambda>r. alternatives r \<noteq> []) (drop (i + 1) (results event))"
        by simp
      show ?thesis
      proof (cases "isFinal (results event ! i)")
        case True
        from "1.hyps"(1)[OF \<open>i < length (results event)\<close> Cons True rest]
        show ?thesis using \<open>i < length (results event)\<close> Cons True by (simp add: onresult_loop.simps [of event i it ft])
      next
        case False
        from "1.hyps"(2)[OF \<open>i < length (results event)\<close> Cons False rest]
        show ?thesis using \<open>i < length (results event)\<close> Cons False by (simp add: onresult_loop.simps [of event i it ft])
      qed
    qed
  qed
qed

lemma onresult_well_formed:
  "well_formed event \<Longrightarrow> onresult event s = Inr (s\<lparr>transcript := transcript s @ final_text event\<rparr>)"
  by (simp add: onresult_def well_formed_def delivered_def final_text_def onresult_loop_returns)

lemma onresult_ill_formed:
  "\<not> well_formed event \<Longrightarrow> onresult event s = Inl TypeError"
  by (simp add: onresult_def well_formed_def delivered_def onresult_loop_throws)

lemma step_Result_well_formed:
  "recognitionRef s = Some r \<Longrightarrow> well_formed event \<Longrightarrow>
   step (Result event) s = (s\<lparr>transcript := transcript s @ final_text event\<rparr>, [])"
  by (simp add: onresult_well_formed commit_def)

lemma run_Results_well_formed:
  "recognitionRef s = Some r \<Longrightarrow> list_all well_formed events \<Longrightarrow>
   run (map Result events) s =
     (s\<lparr>transcript := transcript s @ concat (map final_text events)\<rparr>, [])"
proof (induction events arbitrary: s)
  case Nil
  then show ?case by simp
next
  case (Cons event events)
  let ?s' = "s\<lparr>transcript := transcript s @ final_text event\<rparr>"
  from Cons.prems have wf: "well_formed event" and wfs: "list_all well_formed events"
    by simp_all
  have st: "step (Result event) s = (?s', [])"
    by (rule step_Result_well_formed [OF Cons.prems(1) wf])
  from Cons.prems(1) have "recognitionRef ?s' = Some r"
    by simp
  from Cons.IH [OF this wfs] st show ?case
    by simp
qed

text \<open>
  Claim C1. Whatever the sequence of well-formed result notifications handled by a mounted
  component, the transcript afterwards is the transcript before followed by the texts of
  exactly the segments marked final, notification by notification and in the order
  delivered inside each. Starting from the empty transcript it is that concatenation
  itself. Segments not marked final contribute nothing. The handler does not look at the
  listening flag, which is left as it was; in particular all of this holds while listening.
\<close>

theorem result_notifications_append_final_segments:
  assumes "recognitionRef s = Some r" and "list_all well_formed events"
  shows "transcript (fst (run (map Result events) s))
           = transcript s @ concat (map final_text events)
         \<and> isListening (fst (run (map Result events) s)) = isListening s"
  by (simp add: run_Results_well_formed [OF assms])

theorem result_notifications_append_final_segments_witness:
  "isListening (fst (session \<lparr>has_webkitSpeechRecognition = True, has_SpeechRecognition = False\<rparr>
       [ClickToggle]))
   \<and> transcript (fst (run (map Result
       [\<lparr>resultIndex = 0,
         results = [\<lparr>alternatives = [\<lparr>alt_transcript = ''Hello ''\<rparr>], isFinal = True\<rparr>,
                    \<lparr>alternatives = [\<lparr>alt_transcript = ''wor''\<rparr>], isFinal = False\<rparr>]\<rparr>,
        \<lparr>resultIndex = 1,
         results = [\<lparr>alternatives = [\<lparr>alt_transcript = ''Hello ''\<rparr>], isFinal = True\<rparr>,
                    \<lparr>alternatives = [\<lparr>alt_transcript = ''world.''\<rparr>], isFinal = True\<rparr>]\<rparr>])
       (fst (session \<lparr>has_webkitSpeechRecognition = True, has_SpeechRecognition = False\<rparr>
          [ClickToggle]))))
     = ''Hello world.''"
proof -
  let ?w = "\<lparr>has_webkitSpeechRecognition = True, has_SpeechRecognition = False\<rparr>"
  let ?r = "\<lparr>continuous = True, interimResults = True, lang = ''en-US'',
             onend_isListening = False\<rparr>"
  let ?s = "fst (session ?w [ClickToggle])"
  let ?events =
    "[\<lparr>resultIndex = 0,
       results = [\<lparr>alternatives = [\<lparr>alt_transcript = ''Hello ''\<rparr>], isFinal = True\<rparr>,
                  \<lparr>alternatives = [\<lparr>alt_transcript = ''wor''\<rparr>], isFinal = False\<rparr>]\<rparr>,
      \<lparr>resultIndex = 1,
       results = [\<lparr>alternatives = [\<lparr>alt_transcript = ''Hello ''\<rparr>], isFinal = True\<rparr>,
                  \<lparr>alternatives = [\<lparr>alt_transcript = ''world.''\<rparr>], isFinal = True\<rparr>]\<rparr>]"
  have s: "?s = \<lparr>isListening = True, transcript = [], runInBackground = False,
             recognitionRef = Some ?r\<rparr>"
    by (simp add: session_def mount_def mountEffect_def initial_def handleToggleListening_def)
  have ref: "recognitionRef ?s = Some ?r"
    by (simp add: s)
  have wf: "list_all well_formed ?events"
    by (simp add: well_formed_def delivered_def)
  from result_notifications_append_final_segments [OF ref wf] show ?thesis
    by (simp add: s final_text_def delivered_def first_text_def)
qed

section \<open>The event loop keeps the recognition object and its closures\<close>

lemma onresult_appends:
  "onresult event s = Inr s' \<Longrightarrow> \<exists>ft. s' = s\<lparr>transcript := transcript s @ ft\<rparr>"
  by (auto simp: onresult_def split: sum.splits prod.splits)

lemma step_recognitionRef: "recognitionRef (fst (step e s)) = recognitionRef s"
proof (cases e)
  case (Result ev)
  then show ?thesis
    by (auto split: option.splits sum.splits dest: onresult_appends)
qed (auto simp: handleToggleListening_def handleCopyText_def handleDownloadText_def Let_def
        handleClearText_def onerror_def split: option.splits)

lemma fst_run_Nil: "fst (run [] s) = s"
  by simp

lemma fst_run_Cons: "fst (run (e # es) s) = fst (run es (fst (step e s)))"
  by (simp split: prod.splits)

lemma snd_run_Cons: "snd (run (e # es) s) = snd (step e s) @ snd (run es (fst (step e s)))"
  by (simp split: prod.splits)

lemma fst_session: "fst (session w es) = fst (run es (fst (mount w)))"
  by (simp add: session_def split: prod.splits)

lemma snd_session: "snd (session w es) = snd (mount w) @ snd (run es (fst (mount w)))"
  by (simp add: session_def split: prod.splits)

lemma run_recognitionRef: "recognitionRef (fst (run es s)) = recognitionRef s"
proof (induction es arbitrary: s)
  case Nil
  then show ?case by simp
next
  case (Cons e es)
  have "recognitionRef (fst (run es (fst (step e s)))) = recognitionRef (fst (step e s))"
    by (rule Cons.IH)
  then show ?case
    by (simp only: fst_run_Cons step_recognitionRef)
qed

lemma mount_closure:
  "recognitionRef (fst (mount w)) = Some r \<Longrightarrow> \<not> onend_isListening r"
  by (auto simp: mount_def mountEffect_def initial_def split: if_splits)

lemma session_closure:
  assumes "recognitionRef (fst (session w es)) = Some r"
  shows "\<not> onend_isListening r"
proof -
  have "recognitionRef (fst (session w es)) = recognitionRef (fst (mount w))"
    by (simp only: fst_session run_recognitionRef)
  with assms show ?thesis
    by (simp add: mount_closure)
qed

section \<open>The ended notification\<close>

text \<open>
  The closure of \<^verbatim>\<open>onend\<close> holds the \<^verbatim>\<open>isListening\<close> of the first render, which is
  \<^verbatim>\<open>false\<close>. So in every session, whatever happened before, the handler calls nothing.
\<close>

lemma onend_stale: "step End (fst (session w es)) = (fst (session w es), [])"
  by (auto simp: onend_def split: option.splits dest: session_closure)

text \<open>
  Claim C2 asks that an ended notification while listening, with no stop by the user, makes
  the controller call \<^verbatim>\<open>start()\<close> again, the state staying Listening. On the code: mount
  in a browser with the capability, click the toggle (the flag is set and \<^verbatim>\<open>start()\<close> is
  called), then deliver ended. The flag stays set, but nothing is called: the log of the
  session is the same with and without the notification.
\<close>

theorem ended_while_listening_does_not_restart:
  "isListening (fst (session \<lparr>has_webkitSpeechRecognition = True, has_SpeechRecognition = False\<rparr>
       [ClickToggle]))
   \<and> snd (session \<lparr>has_webkitSpeechRecognition = True, has_SpeechRecognition = False\<rparr>
       [ClickToggle]) = [RecognitionStop, RecognitionStart]
   \<and> session \<lparr>has_webkitSpeechRecognition = True, has_SpeechRecognition = False\<rparr>
       [ClickToggle, End]
     = (\<lparr>isListening = True, transcript = [], runInBackground = False,
         recognitionRef = Some \<lparr>continuous = True, interimResults = True, lang = ''en-US'',
           onend_isListening = False\<rparr>\<rparr>,
        [RecognitionStop, RecognitionStart])"
  by (simp add: session_def mount_def mountEffect_def initial_def handleToggleListening_def
      commit_def listeningEffect_def onend_def)

section \<open>The error notification\<close>

text \<open>
  Claim C3. Handling \<^verbatim>\<open>error(code)\<close> leaves the listening flag unset, whatever it was
  before, and shows a toast titled Error whose description ends with the code.
\<close>

theorem error_notification_idle_and_surfaced:
  assumes "recognitionRef s = Some r"
  shows "isListening (fst (step (Error code) s)) = False
         \<and> Toast ''Error'' (''Speech recognition error: '' @ code) (Some ''destructive'')
             \<in> set (snd (step (Error code) s))
         \<and> sublist code (''Speech recognition error: '' @ code)"
proof -
  have "sublist code (''Speech recognition error: '' @ code)"
    by (rule suffix_imp_sublist) (rule suffixI, rule refl)
  with assms show ?thesis
    by (simp add: onerror_def del: append.simps)
qed

theorem error_notification_idle_and_surfaced_witness:
  "isListening (fst (session \<lparr>has_webkitSpeechRecognition = True, has_SpeechRecognition = False\<rparr>
       [ClickToggle]))
   \<and> \<not> isListening (fst (session \<lparr>has_webkitSpeechRecognition = True, has_SpeechRecognition = False\<rparr>
       [ClickToggle, Error ''no-speech'']))
   \<and> snd (step (Error ''no-speech'')
        (fst (session \<lparr>has_webkitSpeechRecognition = True, has_SpeechRecognition = False\<rparr>
           [ClickToggle])))
     = [ConsoleError ''Speech recognition error'' ''no-speech'',
        Toast ''Error'' ''Speech recognition error: no-speech'' (Some ''destructive''),
        RecognitionStop]"
proof -
  let ?w = "\<lparr>has_webkitSpeechRecognition = True, has_SpeechRecognition = False\<rparr>"
  let ?r = "\<lparr>continuous = True, interimResults = True, lang = ''en-US'',
             onend_isListening = False\<rparr>"
  have s: "fst (session ?w [ClickToggle])
             = \<lparr>isListening = True, transcript = [], runInBackground = False,
                recognitionRef = Some ?r\<rparr>"
    by (simp add: session_def mount_def mountEffect_def initial_def handleToggleListening_def)
  have ref: "recognitionRef (fst (session ?w [ClickToggle])) = Some ?r"
    by (simp add: s)
  have two: "fst (session ?w [ClickToggle, Error ''no-speech''])
             = fst (step (Error ''no-speech'') (fst (session ?w [ClickToggle])))"
    by (simp only: fst_session fst_run_Cons fst_run_Nil)
  from error_notification_idle_and_surfaced [OF ref, of "''no-speech''"] show ?thesis
    by (simp add: two) (simp add: s onerror_def commit_def listeningEffect_def)
qed

text \<open>
  Claim C10. The error handler changes the listening flag only: the transcript, and
  every other cell of the state, is what it was.
\<close>

theorem error_notification_keeps_transcript:
  "transcript (fst (onerror code s)) = transcript s
   \<and> fst (onerror code s) = s\<lparr>isListening := False\<rparr>
   \<and> transcript (fst (step (Error code) s)) = transcript s"
  by (simp add: onerror_def split: option.splits)

section \<open>A browser without the capability\<close>

lemma step_without_recognition:
  assumes "recognitionRef s = None"
  shows "RecognitionStart \<notin> set (snd (step e s))"
    and "count_list (snd (step e s))
           (Toast ''Speech Recognition Not Supported''
              ''Your browser does not support speech recognition.'' (Some ''destructive'')) = 0"
  using assms
  by (cases e; simp add: commit_def listeningEffect_def handleToggleListening_def
        handleCopyText_def handleDownloadText_def Let_def)+

lemma run_without_recognition:
  assumes "recognitionRef s = None"
  shows "RecognitionStart \<notin> set (snd (run es s))
         \<and> count_list (snd (run es s))
           (Toast ''Speech Recognition Not Supported''
              ''Your browser does not support speech recognition.'' (Some ''destructive'')) = 0"
  using assms
proof (induction es arbitrary: s)
  case Nil
  then show ?case by simp
next
  case (Cons e es)
  from Cons.prems have "recognitionRef (fst (step e s)) = None"
    by (simp only: step_recognitionRef)
  from Cons.IH [OF this] step_without_recognition [OF Cons.prems, of e] show ?case
    by (simp only: snd_run_Cons set_append count_list_append) simp
qed

lemma mount_unsupported:
  assumes "\<not> has_webkitSpeechRecognition w" and "\<not> has_SpeechRecognition w"
  shows "mount w = (initial,
           [Toast ''Speech Recognition Not Supported''
              ''Your browser does not support speech recognition.'' (Some ''destructive'')])"
  using assms by (simp add: mount_def mountEffect_def listeningEffect_def initial_def)

text \<open>
  Claim C4 as stated says that after an unsupported mount the toggle leaves the state
  Idle. It does not: the handler flips the flag without looking at the recognition object.
\<close>

theorem toggle_when_unsupported_counterexample:
  "isListening (fst (session \<lparr>has_webkitSpeechRecognition = False, has_SpeechRecognition = False\<rparr>
       [])) = False
   \<and> isListening (fst (session \<lparr>has_webkitSpeechRecognition = False, has_SpeechRecognition = False\<rparr>
       [ClickToggle])) = True"
  by (simp add: session_def mount_def mountEffect_def initial_def handleToggleListening_def)

text \<open>
  Claim C4, amended. After a mount in a browser without the capability, whatever events
  follow, \<^verbatim>\<open>start()\<close> is never called, the toast saying that speech recognition is not
  supported is shown exactly once in the whole session, and a click on the toggle flips
  the listening flag and calls nothing.
\<close>

theorem unsupported_never_starts:
  assumes "\<not> has_webkitSpeechRecognition w" and "\<not> has_SpeechRecognition w"
  shows "RecognitionStart \<notin> set (snd (session w es))
         \<and> count_list (snd (session w es))
             (Toast ''Speech Recognition Not Supported''
                ''Your browser does not support speech recognition.'' (Some ''destructive'')) = 1
         \<and> step ClickToggle (fst (session w es))
             = ((fst (session w es))\<lparr>isListening := \<not> isListening (fst (session w es))\<rparr>, [])"
proof -
  have m: "mount w = (initial,
           [Toast ''Speech Recognition Not Supported''
              ''Your browser does not support speech recognition.'' (Some ''destructive'')])"
    by (rule mount_unsupported [OF assms])
  have none: "recognitionRef (fst (mount w)) = None"
    by (simp add: m initial_def)
  have ref: "recognitionRef (fst (session w es)) = None"
    by (simp only: fst_session run_recognitionRef none)
  have toggle: "step ClickToggle (fst (session w es))
             = ((fst (session w es))\<lparr>isListening := \<not> isListening (fst (session w es))\<rparr>, [])"
    using ref by (simp add: handleToggleListening_def commit_def listeningEffect_def)
  from run_without_recognition [OF none, of es] toggle show ?thesis
    by (simp add: snd_session m del: step.simps)
qed

theorem unsupported_never_starts_witness:
  "session \<lparr>has_webkitSpeechRecognition = False, has_SpeechRecognition = False\<rparr>
      [ClickToggle, ClickToggle, ClickToggle]
     = (\<lparr>isListening = True, transcript = [], runInBackground = False, recognitionRef = None\<rparr>,
        [Toast ''Speech Recognition Not Supported''
           ''Your browser does not support speech recognition.'' (Some ''destructive'')])
   \<and> step ClickToggle
       (fst (session \<lparr>has_webkitSpeechRecognition = False, has_SpeechRecognition = False\<rparr>
          [ClickToggle, ClickToggle, ClickToggle]))
     = (\<lparr>isListening = False, transcript = [], runInBackground = False, recognitionRef = None\<rparr>,
        [])"
proof -
  let ?w = "\<lparr>has_webkitSpeechRecognition = False, has_SpeechRecognition = False\<rparr>"
  have a: "\<not> has_webkitSpeechRecognition ?w" and b: "\<not> has_SpeechRecognition ?w"
    by simp_all
  have s: "session ?w [ClickToggle, ClickToggle, ClickToggle]
     = (\<lparr>isListening = True, transcript = [], runInBackground = False, recognitionRef = None\<rparr>,
        [Toast ''Speech Recognition Not Supported''
           ''Your browser does not support speech recognition.'' (Some ''destructive'')])"
    by (simp add: session_def mount_def mountEffect_def initial_def handleToggleListening_def
        commit_def listeningEffect_def)
  from unsupported_never_starts [OF a b, of "[ClickToggle, ClickToggle, ClickToggle]"] s
  show ?thesis
    by (simp del: step.simps)
qed

section \<open>The transcript only grows\<close>

lemma step_transcript_prefix:
  "e \<noteq> ClickClear \<Longrightarrow> prefix (transcript s) (transcript (fst (step e s)))"
proof (cases e)
  case (Result ev)
  then show ?thesis
    by (auto split: option.splits sum.splits dest: onresult_appends)
qed (auto simp: handleToggleListening_def handleCopyText_def handleDownloadText_def Let_def
        onerror_def split: option.splits)

text \<open>
  Claim C5. In every state, every event other than a click on Clear leaves a transcript
  that has the transcript before as a prefix; so a transcript that is not empty stays not
  empty, and only Clear empties it.
\<close>

theorem transcript_only_grows_unless_cleared:
  assumes "e \<noteq> ClickClear"
  shows "prefix (transcript s) (transcript (fst (step e s)))
         \<and> (transcript s \<noteq> [] \<longrightarrow> transcript (fst (step e s)) \<noteq> [])
         \<and> transcript (fst (step ClickClear s)) = []"
  using step_transcript_prefix [OF assms, of s] by (auto simp: handleClearText_def)

theorem transcript_only_grows_unless_cleared_witness:
  "Result \<lparr>resultIndex = 1,
      results = [\<lparr>alternatives = [\<lparr>alt_transcript = ''Hello ''\<rparr>], isFinal = True\<rparr>,
                 \<lparr>alternatives = [\<lparr>alt_transcript = ''world.''\<rparr>], isFinal = True\<rparr>]\<rparr>
     \<noteq> ClickClear
   \<and> ''Hello '' \<noteq> []
   \<and> prefix ''Hello ''
       (transcript (fst (step
          (Result \<lparr>resultIndex = 1,
             results = [\<lparr>alternatives = [\<lparr>alt_transcript = ''Hello ''\<rparr>], isFinal = True\<rparr>,
                        \<lparr>alternatives = [\<lparr>alt_transcript = ''world.''\<rparr>], isFinal = True\<rparr>]\<rparr>)
          \<lparr>isListening = True, transcript = ''Hello '', runInBackground = False,
            recognitionRef = Some \<lparr>continuous = True, interimResults = True, lang = ''en-US'',
              onend_isListening = False\<rparr>\<rparr>)))
   \<and> transcript (fst (step
          (Result \<lparr>resultIndex = 1,
             results = [\<lparr>alternatives = [\<lparr>alt_transcript = ''Hello ''\<rparr>], isFinal = True\<rparr>,
                        \<lparr>alternatives = [\<lparr>alt_transcript = ''world.''\<rparr>], isFinal = True\<rparr>]\<rparr>)
          \<lparr>isListening = True, transcript = ''Hello '', runInBackground = False,
            recognitionRef = Some \<lparr>continuous = True, interimResults = True, lang = ''en-US'',
              onend_isListening = False\<rparr>\<rparr>))
     = ''Hello world.''"
proof -
  let ?ev = "\<lparr>resultIndex = 1,
      results = [\<lparr>alternatives = [\<lparr>alt_transcript = ''Hello ''\<rparr>], isFinal = True\<rparr>,
                 \<lparr>alternatives = [\<lparr>alt_transcript = ''world.''\<rparr>], isFinal = True\<rparr>]\<rparr>"
  let ?s = "\<lparr>isListening = True, transcript = ''Hello '', runInBackground = False,
            recognitionRef = Some \<lparr>continuous = True, interimResults = True, lang = ''en-US'',
              onend_isListening = False\<rparr>\<rparr>"
  have ne: "Result ?ev \<noteq> ClickClear"
    by simp
  have wf: "well_formed ?ev"
    by (simp add: well_formed_def delivered_def)
  have st: "step (Result ?ev) ?s = (?s\<lparr>transcript := transcript ?s @ final_text ?ev\<rparr>, [])"
    by (rule step_Result_well_formed [OF _ wf]) simp
  have val: "transcript (fst (step (Result ?ev) ?s)) = ''Hello world.''"
    by (simp only: st fst_conv) (simp add: final_text_def delivered_def first_text_def)
  from transcript_only_grows_unless_cleared [OF ne, of ?s] val show ?thesis
    by simp
qed

section \<open>Clearing the transcript\<close>

text \<open>
  Claim C6. \<^verbatim>\<open>handleClearText\<close> sets the transcript to the empty string whatever the state
  is, and changes nothing else; clearing twice gives the same state as clearing once.
\<close>

theorem handleClearText_resets_idempotent:
  "transcript (handleClearText s) = []
   \<and> handleClearText (handleClearText s) = handleClearText s
   \<and> handleClearText s = s\<lparr>transcript := []\<rparr>
   \<and> fst (step ClickClear (fst (step ClickClear s))) = fst (step ClickClear s)"
  by (simp add: handleClearText_def)

section \<open>Toggling twice\<close>

text \<open>
  Claim C7. A click on the toggle never touches the transcript, and two clicks in a row,
  with nothing in between, give back the state there was before the first, transcript
  included.
\<close>

theorem toggle_twice_restores_state:
  "transcript (fst (step ClickToggle s)) = transcript s
   \<and> transcript (fst (step ClickToggle (fst (step ClickToggle s)))) = transcript s
   \<and> fst (run [ClickToggle, ClickToggle] s) = s"
  by (simp add: handleToggleListening_def split: prod.splits)

section \<open>Copy and download\<close>

text \<open>
  Claim C8. \<^verbatim>\<open>handleCopyText\<close> never changes the state, and with an empty transcript it
  does nothing at all; both hold in every browser. With a transcript that is not empty,
  and in a browser where \<^verbatim>\<open>navigator.clipboard\<close> is defined, it writes to the clipboard
  once, what it writes is the whole transcript, and nothing is thrown. Where
  \<^verbatim>\<open>navigator.clipboard\<close> is undefined the handler throws instead and writes nothing.
\<close>

theorem handleCopyText_copies_nonempty_transcript:
  "fst (handleCopyText nav s) = s
   \<and> (transcript s = [] \<longrightarrow> snd (handleCopyText nav s) = [])
   \<and> (transcript s \<noteq> [] \<and> has_clipboard nav \<longrightarrow>
        clipboard_writes (snd (handleCopyText nav s)) = [transcript s]
        \<and> Uncaught TypeError \<notin> set (snd (handleCopyText nav s)))
   \<and> (transcript s \<noteq> [] \<and> \<not> has_clipboard nav \<longrightarrow>
        snd (handleCopyText nav s) = [Uncaught TypeError])
   \<and> step (ClickCopy nav) s = handleCopyText nav s"
  by (simp add: handleCopyText_def)

theorem handleCopyText_copies_nonempty_transcript_witness:
  "transcript initial = []
   \<and> handleCopyText \<lparr>has_clipboard = True\<rparr> initial = (initial, [])
   \<and> has_clipboard \<lparr>has_clipboard = True\<rparr>
   \<and> clipboard_writes (snd (handleCopyText \<lparr>has_clipboard = True\<rparr>
        (initial\<lparr>transcript := ''Hello world.''\<rparr>)))
     = [''Hello world.'']
   \<and> fst (handleCopyText \<lparr>has_clipboard = True\<rparr> (initial\<lparr>transcript := ''Hello world.''\<rparr>))
     = initial\<lparr>transcript := ''Hello world.''\<rparr>
   \<and> \<not> has_clipboard \<lparr>has_clipboard = False\<rparr>
   \<and> handleCopyText \<lparr>has_clipboard = False\<rparr> (initial\<lparr>transcript := ''Hello world.''\<rparr>)
     = (initial\<lparr>transcript := ''Hello world.''\<rparr>, [Uncaught TypeError])"
proof -
  let ?s = "initial\<lparr>transcript := ''Hello world.''\<rparr>"
  let ?secure = "\<lparr>has_clipboard = True\<rparr>"
  let ?insecure = "\<lparr>has_clipboard = False\<rparr>"
  have e: "transcript initial = []"
    by (simp add: initial_def)
  have n: "transcript ?s \<noteq> []" and v: "transcript ?s = ''Hello world.''"
    by simp_all
  have yes: "has_clipboard ?secure" and no: "\<not> has_clipboard ?insecure"
    by simp_all
  from handleCopyText_copies_nonempty_transcript [of ?secure initial] e
  have idle: "handleCopyText ?secure initial = (initial, [])"
    by (simp only: prod_eq_iff fst_conv snd_conv)
  from handleCopyText_copies_nonempty_transcript [of ?secure ?s] n yes
  have copy: "clipboard_writes (snd (handleCopyText ?secure ?s)) = [''Hello world.'']
              \<and> fst (handleCopyText ?secure ?s) = ?s"
    by (simp only: v) blast
  from handleCopyText_copies_nonempty_transcript [of ?insecure ?s] n no
  have throw: "handleCopyText ?insecure ?s = (?s, [Uncaught TypeError])"
    by (simp only: prod_eq_iff fst_conv snd_conv) blast
  from e yes no idle copy throw show ?thesis
    by (intro conjI) simp_all
qed

lemma js_split_not_Nil: "js_split sep cs \<noteq> []"
  by (induction cs) (auto split: list.splits)

lemma js_split_first:
  "sep \<notin> set d \<Longrightarrow> js_split sep (d @ sep # rest) = d # js_split sep rest"
  by (induction d) (auto split: list.splits)

text \<open>
  Claim C9. \<^verbatim>\<open>handleDownloadText\<close> never changes the state. With an empty transcript it
  does nothing at all; otherwise it clicks one anchor, whose target is a blob of type
  \<^verbatim>\<open>text/plain\<close> holding the whole transcript and whose suggested name is
  \<^verbatim>\<open>transcript-\<close>, the date, \<^verbatim>\<open>.txt\<close>, the date being the part of the clock's ISO string
  before its \<^verbatim>\<open>T\<close>.
\<close>

theorem handleDownloadText_saves_nonempty_transcript:
  assumes "CHR ''T'' \<notin> set date"
  shows "fst (handleDownloadText (date @ CHR ''T'' # time) s) = s
         \<and> (transcript s = [] \<longrightarrow> snd (handleDownloadText (date @ CHR ''T'' # time) s) = [])
         \<and> (transcript s \<noteq> [] \<longrightarrow>
              clicked (snd (handleDownloadText (date @ CHR ''T'' # time) s))
                = [\<lparr>href = \<lparr>blobParts = [transcript s], blob_type = ''text/plain''\<rparr>,
                    download = ''transcript-'' @ date @ ''.txt''\<rparr>])"
  by (simp add: handleDownloadText_def Let_def js_split_first [OF assms])

theorem handleDownloadText_saves_nonempty_transcript_witness:
  "CHR ''T'' \<notin> set ''2026-11-03''
   \<and> handleDownloadText ''2026-11-03T09:46:00.000Z'' initial = (initial, [])
   \<and> clicked (snd (handleDownloadText ''2026-11-03T09:46:00.000Z''
        (initial\<lparr>transcript := ''Hello world.''\<rparr>)))
     = [\<lparr>href = \<lparr>blobParts = [''Hello world.''], blob_type = ''text/plain''\<rparr>,
         download = ''transcript-2026-11-03.txt''\<rparr>]
   \<and> fst (handleDownloadText ''2026-11-03T09:46:00.000Z''
        (initial\<lparr>transcript := ''Hello world.''\<rparr>))
     = initial\<lparr>transcript := ''Hello world.''\<rparr>"
proof -
  let ?s = "initial\<lparr>transcript := ''Hello world.''\<rparr>"
  have d: "CHR ''T'' \<notin> set ''2026-11-03''"
    by simp
  have now: "''2026-11-03'' @ CHR ''T'' # ''09:46:00.000Z'' = ''2026-11-03T09:46:00.000Z''"
    by simp
  have name: "''transcript-'' @ ''2026-11-03'' @ ''.txt'' = ''transcript-2026-11-03.txt''"
    by simp
  have e: "transcript initial = []"
    by (simp add: initial_def)
  have n: "transcript ?s \<noteq> []" and v: "transcript ?s = ''Hello world.''"
    by simp_all
  from handleDownloadText_saves_nonempty_transcript [OF d, of "''09:46:00.000Z''" initial] e
  have idle: "handleDownloadText ''2026-11-03T09:46:00.000Z'' initial = (initial, [])"
    by (simp only: now prod_eq_iff fst_conv snd_conv)
  from handleDownloadText_saves_nonempty_transcript [OF d, of "''09:46:00.000Z''" ?s] n
  have save: "clicked (snd (handleDownloadText ''2026-11-03T09:46:00.000Z'' ?s))
     = [\<lparr>href = \<lparr>blobParts = [''Hello world.''], blob_type = ''text/plain''\<rparr>,
         download = ''transcript-2026-11-03.txt''\<rparr>]
   \<and> fst (handleDownloadText ''2026-11-03T09:46:00.000Z'' ?s) = ?s"
    by (simp only: now name v) blast
  from d idle save show ?thesis
    by (intro conjI) simp_all
qed

end
